theory Spec2Isabelle
  imports Complex_Main
begin

section \<open>AuraSense dashboard: the App component of src/App.js\<close>

text \<open>
  The component keeps seven pieces of React state and changes them in two effects and
  in the callbacks those effects register with the Firebase SDK. Every callback only
  calls state setters, so a callback is a function from the component state to the
  next component state. The SDK calls (\<open>initializeApp\<close>, \<open>onAuthStateChanged\<close>,
  \<open>onSnapshot\<close>, ...) are recorded in a call log.
\<close>

subsection \<open>JavaScript values stored in a Firestore document\<close>

type_synonym fs_timestamp = "int \<times> nat"
  \<comment> \<open>a Firestore \<open>Timestamp\<close>: seconds and nanoseconds\<close>

type_synonym js_date = int
  \<comment> \<open>a JavaScript \<open>Date\<close>: its time value\<close>

datatype jsval =
    JUndefined
  | JNull
  | JBool bool
  | JNum real
  | JNaN
  | JStr string
  | JTimestamp fs_timestamp
  | JDate js_date
  | JOther nat
  \<comment> \<open>\<open>JOther\<close>: any other object (a map, an array, a reference, ...)\<close>

datatype js_error = TypeError string

type_synonym js_object = "string \<rightharpoonup> jsval"

text \<open>The truth value JavaScript gives a value in a condition (\<open>v ? a : b\<close>).\<close>

fun truthy :: "jsval \<Rightarrow> bool" where
  "truthy JUndefined = False"
| "truthy JNull = False"
| "truthy (JBool b) = b"
| "truthy (JNum x) = (x \<noteq> 0)"
| "truthy JNaN = False"
| "truthy (JStr s) = (s \<noteq> [])"
| "truthy (JTimestamp t) = True"
| "truthy (JDate d) = True"
| "truthy (JOther n) = True"

text \<open>Reading a property of an object: a missing property is \<open>undefined\<close>.\<close>

definition get_prop :: "js_object \<Rightarrow> string \<Rightarrow> jsval" where
  "get_prop obj k = (case obj k of None \<Rightarrow> JUndefined | Some v \<Rightarrow> v)"

text \<open>
  \<open>v.toDate()\<close>: only a Firestore \<open>Timestamp\<close> has the method; on any other
  non-nullish value the property is \<open>undefined\<close> and the call throws a
  \<open>TypeError\<close>, as does the property access on \<open>null\<close> and \<open>undefined\<close>. The
  conversion itself belongs to the SDK and is a parameter.
\<close>

fun call_toDate :: "(fs_timestamp \<Rightarrow> js_date) \<Rightarrow> jsval \<Rightarrow> js_error + jsval" where
  "call_toDate toDate (JTimestamp t) = Inr (JDate (toDate t))"
| "call_toDate toDate JUndefined = Inl (TypeError ''Cannot read properties of undefined'')"
| "call_toDate toDate JNull = Inl (TypeError ''Cannot read properties of null'')"
| "call_toDate toDate v = Inl (TypeError ''data.timestamp.toDate is not a function'')"

record doc =
  doc_id :: string
  doc_data :: js_object

subsection \<open>Component state\<close>

type_synonym handle = nat
  \<comment> \<open>an SDK object (the Firestore instance, the Auth instance)\<close>

record app_state =
  db :: "handle option"
  auth :: "handle option"
  userId :: "string option"
  latestReading :: "js_object option"
  sensorReadings :: "js_object list"
  error :: "string option"
  isLoading :: bool

text \<open>The arguments of the \<open>useState\<close> calls (lines 9 to 20).\<close>

definition initial_state :: app_state where
  "initial_state =
     \<lparr>db = None, auth = None, userId = None, latestReading = None,
      sensorReadings = [], error = None, isLoading = True\<rparr>"

subsection \<open>The snapshot callback (lines 101 to 117)\<close>

text \<open>
  One document becomes \<open>{id: doc.id, ...data, timestamp: data.timestamp ?
  data.timestamp.toDate() : null}\<close>: the spread of \<open>data\<close> comes after \<open>id\<close> and
  overrides it when the document has a field of that name; \<open>timestamp\<close> comes last.
\<close>

definition materialize :: "(fs_timestamp \<Rightarrow> js_date) \<Rightarrow> doc \<Rightarrow> js_error + js_object" where
  "materialize toDate d =
     (let data = doc_data d in
      case (if truthy (get_prop data ''timestamp'')
            then call_toDate toDate (get_prop data ''timestamp'')
            else Inr JNull) of
        Inl e \<Rightarrow> Inl e
      | Inr ts \<Rightarrow> Inr (([''id'' \<mapsto> JStr (doc_id d)] ++ data)(''timestamp'' \<mapsto> ts)))"

text \<open>\<open>snapshot.forEach\<close>, pushing onto \<open>readings\<close>; an exception leaves the loop.\<close>

fun forEach_push ::
  "(fs_timestamp \<Rightarrow> js_date) \<Rightarrow> doc list \<Rightarrow> js_object list \<Rightarrow> js_error + js_object list" where
  "forEach_push toDate [] readings = Inr readings"
| "forEach_push toDate (d # ds) readings =
     (case materialize toDate d of
        Inl e \<Rightarrow> Inl e
      | Inr r \<Rightarrow> forEach_push toDate ds (readings @ [r]))"

text \<open>
  The callback. The three setters run in one callback and are taken as one state
  change (React batches them into one render). When the loop throws, no setter has
  run.
\<close>

definition onSnapshot_next ::
  "(fs_timestamp \<Rightarrow> js_date) \<Rightarrow> app_state \<Rightarrow> doc list \<Rightarrow> js_error + app_state" where
  "onSnapshot_next toDate st snapshot =
     (case forEach_push toDate snapshot [] of
        Inl e \<Rightarrow> Inl e
      | Inr readings \<Rightarrow>
          (let st1 = st\<lparr>sensorReadings := readings\<rparr>;
               st2 = (if length readings > 0
                      then st1\<lparr>latestReading := Some (readings ! 0)\<rparr>
                      else st1)
           in Inr (st2\<lparr>isLoading := False\<rparr>)))"

subsection \<open>The subscription error callback (lines 118 to 122)\<close>

definition onSnapshot_error :: "app_state \<Rightarrow> string \<Rightarrow> app_state" where
  "onSnapshot_error st message =
     st\<lparr>error := Some (''Failed to fetch sensor data: '' @ message), isLoading := False\<rparr>"

subsection \<open>Rendering (lines 130 to 219)\<close>

text \<open>
  \<open>if (error)\<close> tests the truth value of a string or \<open>null\<close>: the empty string
  counts as no error. The same holds for \<open>userId\<close> and the auth token.
\<close>

definition truthy_str :: "string option \<Rightarrow> bool" where
  "truthy_str v = (case v of None \<Rightarrow> False | Some s \<Rightarrow> s \<noteq> [])"

datatype render_mode =
    LoadingIndicator
  | ErrorPanel "string option" "string option"
  | Dashboard "string option" "js_object option" "js_object list"
  \<comment> \<open>\<open>ErrorPanel error userId\<close>, \<open>Dashboard userId latestReading sensorReadings\<close>\<close>

definition render :: "app_state \<Rightarrow> render_mode" where
  "render st =
     (if isLoading st then LoadingIndicator
      else if truthy_str (error st) then ErrorPanel (error st) (userId st)
      else Dashboard (userId st) (latestReading st) (sensorReadings st))"

subsection \<open>The data effect (lines 82 to 127)\<close>

datatype direction = Asc | Desc

datatype query_constraint = OrderBy string direction | Limit nat

record query =
  q_db :: handle
  q_path :: string
  q_constraints :: "query_constraint list"

datatype json =
    JsonNull
  | JsonBool bool
  | JsonNum real
  | JsonStr string
  | JsonArr "json list"
  | JsonObj "(string \<times> json) list"

datatype sdk_call =
    InitializeApp json
  | GetFirestore handle
  | GetAuth handle
  | OnAuthStateChanged handle
  | SignInWithCustomToken handle string
  | SignInAnonymously handle
  | OnSnapshot query
  | Unsubscribe

text \<open>
  The effect closes over the \<open>db\<close> and \<open>userId\<close> of the render it belongs to and
  calls \<open>setError(null)\<close> on the current state. It returns the next state, the SDK
  calls it made, and whether it returned a cleanup function.
\<close>

definition data_effect ::
  "handle option \<Rightarrow> string option \<Rightarrow> app_state \<Rightarrow> app_state \<times> sdk_call list \<times> bool" where
  "data_effect db_r userId_r st =
     (case db_r of
        None \<Rightarrow> (st, [], False)
      | Some h \<Rightarrow>
          if truthy_str userId_r
          then (st\<lparr>error := None\<rparr>,
                [OnSnapshot \<lparr>q_db = h, q_path = ''sensorReadings'',
                             q_constraints = [OrderBy ''timestamp'' Desc, Limit 10]\<rparr>],
                True)
          else (st, [], False))"

subsection \<open>The initialization effect (lines 23 to 79)\<close>

text \<open>
  The globals injected by the host page (\<open>None\<close>: the global is not defined) and the
  SDK functions the effect calls. An SDK function that throws returns the message of
  the error (\<open>Inl\<close>). Registering the auth listener on the Auth instance that
  \<open>getAuth\<close> returned is taken not to throw. \<open>appId\<close> is computed on line 26 and
  never used.
\<close>

record env =
  firebase_config :: "string option"
  initial_auth_token :: "string option"

record sdk =
  JSON_parse :: "string \<Rightarrow> string + json"
  initializeApp :: "json \<Rightarrow> string + handle"
  getFirestore :: "handle \<Rightarrow> string + handle"
  getAuth :: "handle \<Rightarrow> string + handle"
  timestamp_toDate :: "fs_timestamp \<Rightarrow> js_date"

text \<open>\<open>!v\<close> and \<open>Object.keys(v).length\<close> on the result of \<open>JSON.parse\<close>.\<close>

fun json_falsy :: "json \<Rightarrow> bool" where
  "json_falsy JsonNull = True"
| "json_falsy (JsonBool b) = (\<not> b)"
| "json_falsy (JsonNum x) = (x = 0)"
| "json_falsy (JsonStr s) = (s = [])"
| "json_falsy (JsonArr xs) = False"
| "json_falsy (JsonObj kvs) = False"

fun keys_length :: "json \<Rightarrow> nat" where
  "keys_length (JsonObj kvs) = length (remdups (map fst kvs))"
| "keys_length (JsonArr xs) = length xs"
| "keys_length (JsonStr s) = length s"
| "keys_length v = 0"
  \<comment> \<open>\<open>Object.keys(null)\<close> throws; \<open>!v\<close> is tested first, so it is never evaluated\<close>

definition config_error_message :: string where
  "config_error_message =
     ''Firebase configuration not found. Please ensure __firebase_config is set.''"

definition init_failed :: "app_state \<Rightarrow> string \<Rightarrow> app_state" where
  "init_failed st message =
     st\<lparr>error := Some (''Failed to initialize Firebase: '' @ message), isLoading := False\<rparr>"

text \<open>
  The effect returns the next state, the SDK calls it made, and whether the auth
  listener was registered.
\<close>

definition init_effect :: "sdk \<Rightarrow> env \<Rightarrow> app_state \<Rightarrow> app_state \<times> sdk_call list \<times> bool" where
  "init_effect k e st =
     (case (case firebase_config e of None \<Rightarrow> Inr (JsonObj []) | Some s \<Rightarrow> JSON_parse k s) of
        Inl m \<Rightarrow> (init_failed st m, [], False)
      | Inr firebaseConfig \<Rightarrow>
          if json_falsy firebaseConfig \<or> keys_length firebaseConfig = 0
          then (st\<lparr>error := Some config_error_message, isLoading := False\<rparr>, [], False)
          else
            (case initializeApp k firebaseConfig of
               Inl m \<Rightarrow> (init_failed st m, [InitializeApp firebaseConfig], False)
             | Inr app \<Rightarrow>
                 (case getFirestore k app of
                    Inl m \<Rightarrow>
                      (init_failed st m, [InitializeApp firebaseConfig, GetFirestore app], False)
                  | Inr firestoreDb \<Rightarrow>
                      (case getAuth k app of
                         Inl m \<Rightarrow>
                           (init_failed st m,
                            [InitializeApp firebaseConfig, GetFirestore app, GetAuth app], False)
                       | Inr firebaseAuth \<Rightarrow>
                           (st\<lparr>db := Some firestoreDb, auth := Some firebaseAuth\<rparr>,
                            [InitializeApp firebaseConfig, GetFirestore app, GetAuth app,
                             OnAuthStateChanged firebaseAuth],
                            True)))))"

subsection \<open>The auth listener (lines 47 to 69)\<close>

text \<open>
  \<open>user\<close> is \<open>Some uid\<close> for a signed-in user and \<open>None\<close> for \<open>null\<close>. With no user
  the listener starts a sign-in and awaits it; the rejection of that promise arrives
  later and runs the \<open>catch\<close> block.
\<close>

definition auth_listener ::
  "env \<Rightarrow> handle \<Rightarrow> app_state \<Rightarrow> string option \<Rightarrow> app_state \<times> sdk_call list" where
  "auth_listener e firebaseAuth st user =
     (case user of
        Some uid \<Rightarrow> (st\<lparr>userId := Some uid, isLoading := False\<rparr>, [])
      | None \<Rightarrow>
          (case initial_auth_token e of
             Some t \<Rightarrow>
               if t \<noteq> [] then (st, [SignInWithCustomToken firebaseAuth t])
               else (st, [SignInAnonymously firebaseAuth])
           | None \<Rightarrow> (st, [SignInAnonymously firebaseAuth])))"

definition sign_in_rejected :: "app_state \<Rightarrow> string \<Rightarrow> app_state" where
  "sign_in_rejected st message =
     st\<lparr>error := Some (''Authentication failed: '' @ message), isLoading := False\<rparr>"

subsection \<open>The mounted component\<close>

text \<open>
  What React and the SDK hold besides the component state: whether the component is
  mounted, the Auth instance the auth listener is registered on, the number of sign-in
  promises not yet settled, whether the last run of the data effect returned a cleanup
  function (a subscription is open), and the SDK calls made so far, oldest first.
\<close>

record sys =
  view :: app_state
  mounted :: bool
  listening :: "handle option"
  pending :: nat
  cleanup :: bool
  calls :: "sdk_call list"

definition sys0 :: sys where
  "sys0 = \<lparr>view = initial_state, mounted = False, listening = None, pending = 0,
           cleanup = False, calls = []\<rparr>"

text \<open>
  What can happen to the component: it is mounted, the SDK reports the auth state, a
  sign-in promise settles, the subscription delivers a snapshot or an error.
\<close>

datatype event =
    Mount
  | AuthState "string option"
  | SignInResolved
  | SignInRejected string
  | Snapshot "doc list"
  | SnapshotError string

text \<open>
  After the state has changed React renders again and runs the data effect when one of
  its dependencies \<open>[db, userId]\<close> differs from the previous render: first the cleanup
  function of the previous run, when there is one, then the effect.
\<close>

definition commit :: "handle option \<Rightarrow> string option \<Rightarrow> sys \<Rightarrow> sys" where
  "commit db_p userId_p s =
     (let st = view s in
      if db st = db_p \<and> userId st = userId_p then s
      else
        (case data_effect (db st) (userId st) st of
           (st', cs, c) \<Rightarrow>
             s\<lparr>view := st', cleanup := c,
               calls := calls s @ (if cleanup s then [Unsubscribe] else []) @ cs\<rparr>))"

text \<open>
  One event. \<open>None\<close>: the event cannot happen in this state (no listener is
  registered for it). On mount both effects run, the data effect with the values of
  the first render. A snapshot callback that throws has called no setter.
\<close>

fun sys_step :: "sdk \<Rightarrow> env \<Rightarrow> sys \<Rightarrow> event \<Rightarrow> sys option" where
  "sys_step k e s Mount =
     (if mounted s then None
      else
        (case init_effect k e (view s) of
           (st1, cs1, reg) \<Rightarrow>
             (case data_effect (db (view s)) (userId (view s)) st1 of
                (st2, cs2, c) \<Rightarrow>
                  Some (commit (db (view s)) (userId (view s))
                    (s\<lparr>view := st2, mounted := True,
                       listening := (if reg then auth st1 else None),
                       cleanup := c, calls := calls s @ cs1 @ cs2\<rparr>)))))"
| "sys_step k e s (AuthState user) =
     (case listening s of
        None \<Rightarrow> None
      | Some firebaseAuth \<Rightarrow>
          (case auth_listener e firebaseAuth (view s) user of
             (st', cs) \<Rightarrow>
               Some (commit (db (view s)) (userId (view s))
                 (s\<lparr>view := st', pending := pending s + length cs,
                    calls := calls s @ cs\<rparr>))))"
| "sys_step k e s SignInResolved =
     (if pending s = 0 then None else Some (s\<lparr>pending := pending s - 1\<rparr>))"
| "sys_step k e s (SignInRejected m) =
     (if pending s = 0 then None
      else Some (commit (db (view s)) (userId (view s))
             (s\<lparr>view := sign_in_rejected (view s) m, pending := pending s - 1\<rparr>)))"
| "sys_step k e s (Snapshot docs) =
     (if cleanup s
      then Some (commit (db (view s)) (userId (view s))
             (s\<lparr>view := (case onSnapshot_next (timestamp_toDate k) (view s) docs of
                            Inl err \<Rightarrow> view s
                          | Inr st' \<Rightarrow> st')\<rparr>))
      else None)"
| "sys_step k e s (SnapshotError m) =
     (if cleanup s
      then Some (commit (db (view s)) (userId (view s))
             (s\<lparr>view := onSnapshot_error (view s) m\<rparr>))
      else None)"

fun run :: "sdk \<Rightarrow> env \<Rightarrow> sys \<Rightarrow> event list \<Rightarrow> sys option" where
  "run k e s [] = Some s"
| "run k e s (ev # evs) =
     (case sys_step k e s ev of None \<Rightarrow> None | Some s' \<Rightarrow> run k e s' evs)"

subsection \<open>Documents as the subscription delivers them\<close>

text \<open>
  The comment on line 108 states what the code expects of a document: its
  \<open>timestamp\<close> field is a Firestore \<open>Timestamp\<close> when it exists. A document whose
  \<open>timestamp\<close> is any other value with truth value true makes \<open>toDate\<close> throw.
\<close>

fun is_timestamp :: "jsval \<Rightarrow> bool" where
  "is_timestamp (JTimestamp t) = True"
| "is_timestamp v = False"



subsection \<open>The invariant of the reading window\<close>

definition window_inv :: "app_state \<Rightarrow> bool" where
  "window_inv st =
     (sensorReadings st \<noteq> [] \<longrightarrow> latestReading st = Some (sensorReadings st ! 0))"

subsection \<open>Subscriptions in the call log\<close>

text \<open>
  The invariant that ties the call log to the state and to the events delivered so
  far: \<open>userId\<close> was reported by the auth listener; a subscription in the log was
  opened with the query of line 98, when \<open>db\<close> and \<open>userId\<close> were set; and the
  subscriptions opened are those cancelled, and one more when a cleanup is held.
\<close>

fun is_OnSnapshot :: "sdk_call \<Rightarrow> bool" where
  "is_OnSnapshot (OnSnapshot q) = True"
| "is_OnSnapshot c = False"

fun is_Unsubscribe :: "sdk_call \<Rightarrow> bool" where
  "is_Unsubscribe Unsubscribe = True"
| "is_Unsubscribe c = False"

definition sensor_query :: "query \<Rightarrow> bool" where
  "sensor_query q =
     (q_path q = ''sensorReadings'' \<and>
      q_constraints q = [OrderBy ''timestamp'' Desc, Limit 10])"

definition sub_inv :: "sys \<Rightarrow> event list \<Rightarrow> bool" where
  "sub_inv s past =
     ((\<forall>u. userId (view s) = Some u \<longrightarrow> AuthState (Some u) \<in> set past) \<and>
      (\<forall>q. OnSnapshot q \<in> set (calls s) \<longrightarrow>
         db (view s) \<noteq> None \<and> userId (view s) \<noteq> None \<and>
         (\<exists>u. u \<noteq> [] \<and> AuthState (Some u) \<in> set past) \<and> sensor_query q) \<and>
      length (filter is_OnSnapshot (calls s)) =
        length (filter is_Unsubscribe (calls s)) + (if cleanup s then 1 else 0))"

subsection \<open>A concrete session\<close>

definition example_toDate :: "fs_timestamp \<Rightarrow> js_date" where
  "example_toDate t = fst t * 1000 + int (snd t div 1000000)"

definition example_doc1 :: doc where
  "example_doc1 =
     \<lparr>doc_id = ''r1'',
      doc_data = [''temperature'' \<mapsto> JNum 22.5, ''humidity'' \<mapsto> JNum 40,
                  ''timestamp'' \<mapsto> JTimestamp (1700000060, 0)]\<rparr>"

definition example_doc2 :: doc where
  "example_doc2 =
     \<lparr>doc_id = ''r2'',
      doc_data = [''temperature'' \<mapsto> JNum 21, ''humidity'' \<mapsto> JNum 41]\<rparr>"

definition example_reading1 :: js_object where
  "example_reading1 =
     [''id'' \<mapsto> JStr ''r1'', ''temperature'' \<mapsto> JNum 22.5, ''humidity'' \<mapsto> JNum 40,
      ''timestamp'' \<mapsto> JDate 1700000060000]"

definition example_reading2 :: js_object where
  "example_reading2 =
     [''id'' \<mapsto> JStr ''r2'', ''temperature'' \<mapsto> JNum 21, ''humidity'' \<mapsto> JNum 41,
      ''timestamp'' \<mapsto> JNull]"

definition example_env :: env where
  "example_env = \<lparr>firebase_config = Some ''cfg'', initial_auth_token = None\<rparr>"

definition example_sdk :: sdk where
  "example_sdk =
     \<lparr>JSON_parse = (\<lambda>s. if s = ''cfg''
                          then Inr (JsonObj [(''projectId'', JsonStr ''aura'')])
                          else Inl ''Unexpected token''),
      initializeApp = (\<lambda>c. Inr 1),
      getFirestore = (\<lambda>a. Inr 2),
      getAuth = (\<lambda>a. Inr 3),
      timestamp_toDate = example_toDate\<rparr>"

definition example_query :: query where
  "example_query =
     \<lparr>q_db = 2, q_path = ''sensorReadings'',
      q_constraints = [OrderBy ''timestamp'' Desc, Limit 10]\<rparr>"

definition example_calls :: "sdk_call list" where
  "example_calls =
     [InitializeApp (JsonObj [(''projectId'', JsonStr ''aura'')]), GetFirestore 1, GetAuth 1,
      OnAuthStateChanged 3, OnSnapshot example_query]"

definition example_mounted :: sys where
  "example_mounted =
     \<lparr>view = initial_state\<lparr>db := Some 2, auth := Some 3\<rparr>,
      mounted = True, listening = Some 3, pending = 0, cleanup = False,
      calls = [InitializeApp (JsonObj [(''projectId'', JsonStr ''aura'')]),
               GetFirestore 1, GetAuth 1, OnAuthStateChanged 3]\<rparr>"

definition example_subscribed :: sys where
  "example_subscribed =
     \<lparr>view = initial_state\<lparr>db := Some 2, auth := Some 3, userId := Some ''u1'',
                              isLoading := False\<rparr>,
      mounted = True, listening = Some 3, pending = 0, cleanup = True,
      calls = example_calls\<rparr>"

definition example_loaded :: sys where
  "example_loaded =
     example_subscribed\<lparr>view := (view example_subscribed)
        \<lparr>sensorReadings := [example_reading1, example_reading2],
         latestReading := Some example_reading1\<rparr>\<rparr>"

definition example_events :: "event list" where
  "example_events =
     [Mount, AuthState (Some ''u1''), Snapshot [example_doc1, example_doc2]]"

definition example_degraded :: sys where
  "example_degraded =
     example_loaded\<lparr>view := (view example_loaded)
        \<lparr>error := Some ''Failed to fetch sensor data: unavailable''\<rparr>\<rparr>"

definition example_resubscribed :: sys where
  "example_resubscribed =
     example_degraded\<lparr>view := (view example_degraded)\<lparr>userId := Some ''u2'', error := None\<rparr>,
       calls := example_calls @ [Unsubscribe, OnSnapshot example_query]\<rparr>"






text \<open>A session without configuration, and the state it ends in.\<close>

definition example_env_absent :: env where
  "example_env_absent = \<lparr>firebase_config = None, initial_auth_token = None\<rparr>"

definition example_env_empty :: env where
  "example_env_empty = \<lparr>firebase_config = Some ''{}'', initial_auth_token = None\<rparr>"

definition example_sdk_empty :: sdk where
  "example_sdk_empty = example_sdk\<lparr>JSON_parse := (\<lambda>s. Inr (JsonObj []))\<rparr>"

definition no_config_sys :: sys where
  "no_config_sys =
     \<lparr>view = initial_state\<lparr>error := Some config_error_message, isLoading := False\<rparr>,
      mounted = True, listening = None, pending = 0, cleanup = False, calls = []\<rparr>"

section \<open>Properties of the snapshot callback\<close>

lemma forEach_push_acc:
  "forEach_push td ds acc =
     (case forEach_push td ds [] of Inl e \<Rightarrow> Inl e | Inr rs \<Rightarrow> Inr (acc @ rs))"
proof (induction ds arbitrary: acc)
  case Nil
  show ?case by simp
next
  case (Cons d ds)
  show ?case
  proof (cases "materialize td d")
    case (Inl e)
    then show ?thesis by simp
  next
    case (Inr r)
    show ?thesis
      using Inr Cons.IH [of "acc @ [r]"] Cons.IH [of "[r]"]
      by (simp split: sum.splits)
  qed
qed

lemma forEach_push_Cons:
  "forEach_push td (d # ds) [] =
     (case materialize td d of
        Inl e \<Rightarrow> Inl e
      | Inr r \<Rightarrow> (case forEach_push td ds [] of Inl e \<Rightarrow> Inl e | Inr rs \<Rightarrow> Inr (r # rs)))"
proof (cases "materialize td d")
  case (Inl e)
  then show ?thesis by simp
next
  case (Inr r)
  then show ?thesis
    using forEach_push_acc [of td ds "[r]"] by (simp split: sum.splits)
qed




lemma materialize_throws:
  assumes "get_prop (doc_data d) ''timestamp'' = v" and "truthy v" and "\<not> is_timestamp v"
  shows "\<exists>m. materialize td d = Inl (TypeError m)"
  using assms by (cases v) (auto simp: materialize_def Let_def)

lemma forEach_push_throws:
  "materialize td d = Inl err \<Longrightarrow> d \<in> set ds \<Longrightarrow> \<exists>err'. forEach_push td ds [] = Inl err'"
proof (induction ds)
  case Nil
  then show ?case by simp
next
  case (Cons x xs)
  then show ?case
    by (cases "materialize td x"; cases "forEach_push td xs []")
       (auto simp del: forEach_push.simps simp add: forEach_push_Cons)
qed


lemma example_materialize1: "materialize example_toDate example_doc1 = Inr example_reading1"
  by (simp add: materialize_def example_doc1_def example_reading1_def example_toDate_def
        get_prop_def Let_def)

lemma example_materialize2: "materialize example_toDate example_doc2 = Inr example_reading2"
  by (simp add: materialize_def example_doc2_def example_reading2_def example_toDate_def
        get_prop_def Let_def)


lemma example_snapshot:
  "onSnapshot_next example_toDate st [example_doc1, example_doc2] =
     Inr (st\<lparr>sensorReadings := [example_reading1, example_reading2],
             latestReading := Some example_reading1, isLoading := False\<rparr>)"
  by (simp add: onSnapshot_next_def example_materialize1 example_materialize2)

lemma onSnapshot_next_Inr:
  "onSnapshot_next td st snapshot = Inr st' \<longleftrightarrow>
     (\<exists>rs. forEach_push td snapshot [] = Inr rs \<and>
        st' = (if rs = [] then st\<lparr>sensorReadings := [], isLoading := False\<rparr>
               else st\<lparr>sensorReadings := rs, latestReading := Some (rs ! 0),
                       isLoading := False\<rparr>))"
  by (cases "forEach_push td snapshot []") (auto simp: onSnapshot_next_def)

lemma onSnapshot_next_frame:
  assumes "onSnapshot_next td st snapshot = Inr st'"
  shows "db st' = db st" "auth st' = auth st" "userId st' = userId st" "error st' = error st"
    "isLoading st' = False" "forEach_push td snapshot [] = Inr (sensorReadings st')"
  using assms by (auto simp: onSnapshot_next_Inr split: if_splits)

lemma onSnapshot_next_window_inv:
  "onSnapshot_next td st snapshot = Inr st' \<Longrightarrow> window_inv st'"
  by (auto simp: onSnapshot_next_Inr window_inv_def split: if_splits)

lemma onSnapshot_next_Inl:
  "onSnapshot_next td st snapshot = Inl err \<Longrightarrow> onSnapshot_next td st2 snapshot = Inl err"
  by (cases "forEach_push td snapshot []") (auto simp: onSnapshot_next_def Let_def)

lemma snapshot_twice:
  assumes "onSnapshot_next toDate st snapshot = Inr st1"
  shows "onSnapshot_next toDate st1 snapshot = Inr st1"
proof -
  obtain rs where rs: "forEach_push toDate snapshot [] = Inr rs"
    and st1: "st1 = (if rs = [] then st\<lparr>sensorReadings := [], isLoading := False\<rparr>
               else st\<lparr>sensorReadings := rs, latestReading := Some (rs ! 0),
                       isLoading := False\<rparr>)"
    using assms by (auto simp: onSnapshot_next_Inr)
  show ?thesis
    unfolding onSnapshot_next_Inr
    by (rule exI [of _ rs]) (simp add: rs st1)
qed

section \<open>Properties of the mounted component\<close>

lemma commit_same: "db (view s) = dp \<Longrightarrow> userId (view s) = up \<Longrightarrow> commit dp up s = s"
  by (simp add: commit_def)

lemma commit_frame:
  "mounted (commit dp up s) = mounted s"
  "listening (commit dp up s) = listening s"
  "pending (commit dp up s) = pending s"
  "db (view (commit dp up s)) = db (view s)"
  "auth (view (commit dp up s)) = auth (view s)"
  "userId (view (commit dp up s)) = userId (view s)"
  "sensorReadings (view (commit dp up s)) = sensorReadings (view s)"
  "latestReading (view (commit dp up s)) = latestReading (view s)"
  "isLoading (view (commit dp up s)) = isLoading (view s)"
  by (simp_all add: commit_def data_effect_def Let_def split: option.splits)

lemma commit_window_inv: "window_inv (view (commit dp up s)) = window_inv (view s)"
  by (simp add: window_inv_def commit_frame)

lemma init_effect_frame:
  assumes "init_effect k e st = (st1, cs, reg)"
  shows "sensorReadings st1 = sensorReadings st" "latestReading st1 = latestReading st"
    "userId st1 = userId st"
  using assms
  by (auto simp: init_effect_def init_failed_def split: option.splits sum.splits if_splits)

lemma data_effect_frame:
  assumes "data_effect dr ur st = (st1, cs, c)"
  shows "sensorReadings st1 = sensorReadings st" "latestReading st1 = latestReading st"
    "userId st1 = userId st" "db st1 = db st" "auth st1 = auth st" "isLoading st1 = isLoading st"
  using assms by (auto simp: data_effect_def split: option.splits if_splits)

lemma auth_listener_frame:
  assumes "auth_listener e a st user = (st1, cs)"
  shows "sensorReadings st1 = sensorReadings st" "latestReading st1 = latestReading st"
    "db st1 = db st" "auth st1 = auth st"
  using assms by (auto simp: auth_listener_def split: option.splits if_splits)

lemma sys_step_window:
  assumes "sys_step k e s ev = Some s'" and "\<forall>docs. ev \<noteq> Snapshot docs"
  shows "sensorReadings (view s') = sensorReadings (view s) \<and>
         latestReading (view s') = latestReading (view s)"
proof (cases ev)
  case Mount
  obtain st1 cs1 reg where i: "init_effect k e (view s) = (st1, cs1, reg)"
    by (cases "init_effect k e (view s)") auto
  obtain st2 cs2 c where d: "data_effect (db (view s)) (userId (view s)) st1 = (st2, cs2, c)"
    by (cases "data_effect (db (view s)) (userId (view s)) st1") auto
  show ?thesis
    using assms(1) Mount i d init_effect_frame(1,2) [OF i] data_effect_frame(1,2) [OF d]
    by (auto simp: commit_frame split: if_splits)
next
  case (AuthState user)
  then obtain a where a: "listening s = Some a"
    using assms(1) by (auto split: option.splits)
  obtain st1 cs where l: "auth_listener e a (view s) user = (st1, cs)"
    by (cases "auth_listener e a (view s) user") auto
  show ?thesis
    using assms(1) AuthState a l auth_listener_frame(1,2) [OF l]
    by (auto simp: commit_frame)
next
  case SignInResolved
  then show ?thesis using assms(1) by (auto split: if_splits)
next
  case (SignInRejected m)
  then show ?thesis
    using assms(1) by (auto simp: commit_frame sign_in_rejected_def split: if_splits)
next
  case (Snapshot docs)
  then show ?thesis using assms(2) by simp
next
  case (SnapshotError m)
  then show ?thesis
    using assms(1) by (auto simp: commit_frame onSnapshot_error_def split: if_splits)
qed

lemma sys_step_window_inv:
  assumes "sys_step k e s ev = Some s'" and "window_inv (view s)"
  shows "window_inv (view s')"
proof (cases "\<exists>docs. ev = Snapshot docs")
  case True
  then obtain docs where ev: "ev = Snapshot docs" by blast
  show ?thesis
  proof (cases "onSnapshot_next (timestamp_toDate k) (view s) docs")
    case (Inl err)
    then show ?thesis
      using assms ev by (auto simp: commit_window_inv split: if_splits)
  next
    case (Inr st')
    then show ?thesis
      using assms(1) ev onSnapshot_next_window_inv [OF Inr]
      by (auto simp: commit_window_inv split: if_splits)
  qed
next
  case False
  then show ?thesis
    using sys_step_window [OF assms(1)] assms(2) by (simp add: window_inv_def)
qed

lemma run_window_inv:
  "run k e s evs = Some s' \<Longrightarrow> window_inv (view s) \<Longrightarrow> window_inv (view s')"
proof (induction evs arbitrary: s)
  case Nil
  then show ?case by simp
next
  case (Cons ev evs)
  then obtain s1 where s1: "sys_step k e s ev = Some s1" and r: "run k e s1 evs = Some s'"
    by (auto split: option.splits)
  show ?case
    using Cons.IH [OF r] sys_step_window_inv [OF s1 Cons.prems(2)] by simp
qed

lemma window_inv_sys0: "window_inv (view sys0)"
  by (simp add: window_inv_def sys0_def initial_state_def)


lemma sys_step_SnapshotError:
  "cleanup s \<Longrightarrow>
   sys_step k e s (SnapshotError m) = Some (s\<lparr>view := onSnapshot_error (view s) m\<rparr>)"
  by (simp add: commit_same onSnapshot_error_def)

lemma sys0_only_Mount: "sys_step k e sys0 ev = Some s \<Longrightarrow> ev = Mount"
  by (cases ev) (auto simp: sys0_def)

lemma sys_step_mounted: "sys_step k e s ev = Some s' \<Longrightarrow> mounted s \<or> s = sys0 \<Longrightarrow> mounted s'"
proof (cases ev)
  case Mount
  assume "sys_step k e s ev = Some s'"
  then show ?thesis
    using Mount by (auto simp: commit_frame split: if_splits prod.splits)
next
  case (AuthState user)
  assume a: "sys_step k e s ev = Some s'" and b: "mounted s \<or> s = sys0"
  then have "mounted s" using AuthState sys0_only_Mount by blast
  then show ?thesis
    using a AuthState by (auto simp: commit_frame split: option.splits prod.splits)
next
  case SignInResolved
  assume a: "sys_step k e s ev = Some s'" and b: "mounted s \<or> s = sys0"
  then have "mounted s" using SignInResolved sys0_only_Mount by blast
  then show ?thesis
    using a SignInResolved by (auto split: if_splits)
next
  case (SignInRejected m)
  assume a: "sys_step k e s ev = Some s'" and b: "mounted s \<or> s = sys0"
  then have "mounted s" using SignInRejected sys0_only_Mount by blast
  then show ?thesis
    using a SignInRejected by (auto simp: commit_frame split: if_splits)
next
  case (Snapshot docs)
  assume a: "sys_step k e s ev = Some s'" and b: "mounted s \<or> s = sys0"
  then have "mounted s" using Snapshot sys0_only_Mount by blast
  then show ?thesis
    using a Snapshot by (auto simp: commit_frame split: if_splits)
next
  case (SnapshotError m)
  assume a: "sys_step k e s ev = Some s'" and b: "mounted s \<or> s = sys0"
  then have "mounted s" using SnapshotError sys0_only_Mount by blast
  then show ?thesis
    using a SnapshotError by (auto simp: commit_frame split: if_splits)
qed

lemma run_mounted:
  "run k e s evs = Some s' \<Longrightarrow> mounted s \<or> s = sys0 \<Longrightarrow> mounted s' \<or> s' = sys0"
proof (induction evs arbitrary: s)
  case Nil
  then show ?case by simp
next
  case (Cons ev evs)
  then obtain s1 where s1: "sys_step k e s ev = Some s1" and r: "run k e s1 evs = Some s'"
    by (auto split: option.splits)
  have "mounted s1" using sys_step_mounted [OF s1 Cons.prems(2)] .
  then show ?case using Cons.IH [OF r] by simp
qed

lemma reachable_mounted: "run k e sys0 evs = Some s \<Longrightarrow> mounted s \<or> s = sys0"
  using run_mounted [of k e sys0 evs s] by simp

lemma sys_step_Snapshot_error:
  assumes "sys_step k e s (Snapshot docs) = Some s'"
  shows "error (view s') = error (view s)"
proof (cases "onSnapshot_next (timestamp_toDate k) (view s) docs")
  case (Inl err)
  then show ?thesis
    using assms by (auto simp: commit_same split: if_splits)
next
  case (Inr st')
  have "commit (db (view s)) (userId (view s)) (s\<lparr>view := st'\<rparr>) = s\<lparr>view := st'\<rparr>"
    using onSnapshot_next_frame(1,3) [OF Inr] by (simp add: commit_same)
  then show ?thesis
    using assms Inr onSnapshot_next_frame(4) [OF Inr] by (auto split: if_splits)
qed

lemma commit_error_cleared:
  assumes "error (view (commit dp up s)) = None" and "error (view s) = Some m"
  shows "(db (view s) \<noteq> dp \<or> userId (view s) \<noteq> up) \<and>
         (\<exists>h. db (view s) = Some h \<and> truthy_str (userId (view s)) \<and>
            cleanup (commit dp up s) \<and>
            calls (commit dp up s) =
              calls s @ (if cleanup s then [Unsubscribe] else []) @
              [OnSnapshot \<lparr>q_db = h, q_path = ''sensorReadings'',
                 q_constraints = [OrderBy ''timestamp'' Desc, Limit 10]\<rparr>])"
  using assms
  by (auto simp: commit_def data_effect_def Let_def split: if_splits option.splits)

lemma error_cleared_only_by_data_effect:
  assumes r: "run k e sys0 evs = Some s" and st: "sys_step k e s ev = Some s'"
    and m: "error (view s) = Some m" and n: "error (view s') = None"
  shows "(db (view s') \<noteq> db (view s) \<or> userId (view s') \<noteq> userId (view s)) \<and>
         (\<exists>h. db (view s') = Some h \<and> truthy_str (userId (view s')) \<and> cleanup s' \<and>
            calls s' = calls s @ (if cleanup s then [Unsubscribe] else []) @
              [OnSnapshot \<lparr>q_db = h, q_path = ''sensorReadings'',
                 q_constraints = [OrderBy ''timestamp'' Desc, Limit 10]\<rparr>])"
proof (cases ev)
  case Mount
  then have "\<not> mounted s" using st by (auto split: if_splits)
  then have "s = sys0" using reachable_mounted [OF r] by simp
  then have "error (view s) = None" by (simp add: sys0_def initial_state_def)
  then show ?thesis using m by simp
next
  case (AuthState user)
  then obtain a where a: "listening s = Some a"
    using st by (auto split: option.splits)
  show ?thesis
  proof (cases user)
    case None
    then have "view s' = view s"
      using st AuthState a
      by (auto simp: auth_listener_def commit_same split: option.splits if_splits)
    then show ?thesis using m n by simp
  next
    case (Some uid)
    let ?s1 = "s\<lparr>view := (view s)\<lparr>userId := Some uid, isLoading := False\<rparr>,
                  pending := pending s + 0, calls := calls s @ []\<rparr>"
    have s': "s' = commit (db (view s)) (userId (view s)) ?s1"
      using st AuthState a Some by (simp add: auth_listener_def)
    have e1: "error (view ?s1) = Some m" using m by simp
    show ?thesis
      using commit_error_cleared [OF n [unfolded s'] e1] s'
      by (simp add: commit_frame)
  qed
next
  case SignInResolved
  then have "view s' = view s" using st by (auto split: if_splits)
  then show ?thesis using m n by simp
next
  case (SignInRejected msg)
  then have "error (view s') \<noteq> None"
    using st by (auto simp: commit_same sign_in_rejected_def split: if_splits)
  then show ?thesis using n by simp
next
  case (Snapshot docs)
  then show ?thesis
    using sys_step_Snapshot_error [of k e s docs s'] st m n by simp
next
  case (SnapshotError msg)
  then have "error (view s') \<noteq> None"
    using st by (auto simp: commit_same onSnapshot_error_def split: if_splits)
  then show ?thesis using n by simp
qed

lemma init_effect_no_config:
  assumes "firebase_config e = None \<or>
     (\<exists>c cfg. firebase_config e = Some c \<and> JSON_parse k c = Inr cfg \<and>
        (json_falsy cfg \<or> keys_length cfg = 0))"
  shows "init_effect k e st =
     (st\<lparr>error := Some config_error_message, isLoading := False\<rparr>, [], False)"
  using assms by (auto simp: init_effect_def)

lemma mount_no_config:
  assumes "firebase_config e = None \<or>
     (\<exists>c cfg. firebase_config e = Some c \<and> JSON_parse k c = Inr cfg \<and>
        (json_falsy cfg \<or> keys_length cfg = 0))"
  shows "sys_step k e sys0 Mount = Some no_config_sys"
proof -
  have v: "view sys0 = initial_state" "mounted sys0 = False" "calls sys0 = []"
    by (simp_all add: sys0_def)
  have d: "db initial_state = None" "userId initial_state = None"
    by (simp_all add: initial_state_def)
  show ?thesis
    by (simp add: v d init_effect_no_config [OF assms] data_effect_def commit_def)
       (simp add: sys0_def no_config_sys_def)
qed

lemma no_config_stuck: "sys_step k e no_config_sys ev = None"
  by (cases ev) (simp_all add: no_config_sys_def)

lemma run_no_config:
  assumes "sys_step k e sys0 Mount = Some no_config_sys"
    and "run k e sys0 evs = Some s"
  shows "s = sys0 \<or> s = no_config_sys"
proof (cases evs)
  case Nil
  then show ?thesis using assms(2) by simp
next
  case (Cons ev evs')
  then obtain s1 where s1: "sys_step k e sys0 ev = Some s1" and r: "run k e s1 evs' = Some s"
    using assms(2) by (auto split: option.splits)
  have "ev = Mount" using s1 by (rule sys0_only_Mount)
  then have s1': "s1 = no_config_sys" using s1 assms(1) by simp
  show ?thesis
  proof (cases evs')
    case Nil
    then show ?thesis using r s1' by simp
  next
    case (Cons ev' evs'')
    then have "run k e s1 evs' = None"
      by (simp del: sys_step.simps add: s1' no_config_stuck)
    then show ?thesis using r by simp
  qed
qed

lemma sub_inv_sys0: "sub_inv sys0 []"
  by (simp add: sub_inv_def sys0_def initial_state_def)

lemma sub_inv_past: "sub_inv s past \<Longrightarrow> sub_inv s (past @ [ev])"
  by (auto simp: sub_inv_def)

lemma commit_sub_inv:
  assumes "sub_inv s past"
  shows "sub_inv (commit dp up s) past"
proof (cases "db (view s) = dp \<and> userId (view s) = up")
  case True
  then show ?thesis using assms by (simp add: commit_same)
next
  case False
  show ?thesis
  proof (cases "db (view s)")
    case None
    then have "commit dp up s =
        s\<lparr>cleanup := False, calls := calls s @ (if cleanup s then [Unsubscribe] else [])\<rparr>"
      using False by (auto simp: commit_def data_effect_def Let_def)
    then show ?thesis using assms by (auto simp: sub_inv_def)
  next
    case (Some h)
    show ?thesis
    proof (cases "truthy_str (userId (view s))")
      case False
      then have "commit dp up s =
          s\<lparr>cleanup := False, calls := calls s @ (if cleanup s then [Unsubscribe] else [])\<rparr>"
        using \<open>\<not> (db (view s) = dp \<and> userId (view s) = up)\<close> Some
        by (auto simp: commit_def data_effect_def Let_def)
      then show ?thesis using assms by (auto simp: sub_inv_def)
    next
      case True
      then obtain u where u: "userId (view s) = Some u" "u \<noteq> []"
        by (auto simp: truthy_str_def split: option.splits)
      have c: "commit dp up s =
          s\<lparr>view := (view s)\<lparr>error := None\<rparr>, cleanup := True,
            calls := calls s @ (if cleanup s then [Unsubscribe] else []) @
              [OnSnapshot \<lparr>q_db = h, q_path = ''sensorReadings'',
                 q_constraints = [OrderBy ''timestamp'' Desc, Limit 10]\<rparr>]\<rparr>"
        using \<open>\<not> (db (view s) = dp \<and> userId (view s) = up)\<close> Some True
        by (auto simp: commit_def data_effect_def Let_def)
      have "AuthState (Some u) \<in> set past"
        using assms u(1) by (simp add: sub_inv_def)
      then show ?thesis
        using assms u Some unfolding c by (auto simp: sub_inv_def sensor_query_def)
    qed
  qed
qed

lemma init_effect_calls:
  assumes "init_effect k e st = (st1, cs, reg)"
  shows "filter is_OnSnapshot cs = []" "filter is_Unsubscribe cs = []" "OnSnapshot q \<notin> set cs"
  using assms
  by (auto simp: init_effect_def split: option.splits sum.splits if_splits)

lemma auth_listener_calls:
  assumes "auth_listener e a st user = (st1, cs)"
  shows "filter is_OnSnapshot cs = []" "filter is_Unsubscribe cs = []" "OnSnapshot q \<notin> set cs"
    "userId st1 = userId st \<or> (\<exists>u. user = Some u \<and> userId st1 = Some u)"
  using assms by (auto simp: auth_listener_def split: option.splits if_splits)


lemma sub_inv_view:
  assumes "sub_inv s past" and "db v = db (view s)" and "userId v = userId (view s)"
  shows "sub_inv (s\<lparr>view := v\<rparr>) past"
  using assms by (auto simp: sub_inv_def)

lemma sub_inv_pending: "sub_inv (s\<lparr>pending := n\<rparr>) past = sub_inv s past"
  by (simp add: sub_inv_def)

lemma sys_step_sub_inv:
  assumes st: "sys_step k e s ev = Some s'" and inv: "sub_inv s past"
    and mt: "mounted s \<or> s = sys0"
  shows "sub_inv s' (past @ [ev])"
proof (cases ev)
  case Mount
  then have "\<not> mounted s" using st by (auto split: if_splits)
  then have s0: "s = sys0" using mt by simp
  obtain st1 cs1 reg where i: "init_effect k e initial_state = (st1, cs1, reg)"
    by (cases "init_effect k e initial_state") auto
  let ?s1 = "sys0\<lparr>view := st1, mounted := True,
                   listening := (if reg then auth st1 else None),
                   cleanup := False, calls := cs1\<rparr>"
  have v: "view sys0 = initial_state" "mounted sys0 = False" "calls sys0 = []"
    by (simp_all add: sys0_def)
  have d: "db initial_state = None" "userId initial_state = None"
    by (simp_all add: initial_state_def)
  have s': "s' = commit None None ?s1"
    using st Mount s0 by (simp add: v d i data_effect_def)
  have "userId st1 = None"
    using init_effect_frame(3) [OF i] d by simp
  then have "sub_inv ?s1 (past @ [ev])"
    using init_effect_calls [OF i] by (simp add: sub_inv_def)
  then show ?thesis
    unfolding s' by (rule commit_sub_inv)
next
  case (AuthState user)
  then obtain a where a: "listening s = Some a"
    using st by (auto split: option.splits)
  obtain st1 cs where l: "auth_listener e a (view s) user = (st1, cs)"
    by (cases "auth_listener e a (view s) user") auto
  let ?s1 = "s\<lparr>view := st1, pending := pending s + length cs, calls := calls s @ cs\<rparr>"
  have s': "s' = commit (db (view s)) (userId (view s)) ?s1"
    using st AuthState a l by simp
  have u1: "userId st1 = userId (view s) \<or> (\<exists>u. user = Some u \<and> userId st1 = Some u)"
    by (rule auth_listener_calls(4) [OF l])
  have p1: "AuthState (Some u) \<in> set (past @ [ev])" if "userId st1 = Some u" for u
  proof -
    from u1 show ?thesis
    proof
      assume "userId st1 = userId (view s)"
      then have "userId (view s) = Some u" using that by simp
      then show ?thesis using inv by (simp add: sub_inv_def)
    next
      assume "\<exists>u. user = Some u \<and> userId st1 = Some u"
      then have "user = Some u" using that by auto
      then show ?thesis using AuthState by simp
    qed
  qed
  have p2: "db st1 \<noteq> None \<and> userId st1 \<noteq> None \<and>
      (\<exists>u. u \<noteq> [] \<and> AuthState (Some u) \<in> set (past @ [ev])) \<and> sensor_query q"
    if "OnSnapshot q \<in> set (calls s @ cs)" for q
  proof -
    have "OnSnapshot q \<in> set (calls s)"
      using that auth_listener_calls(3) [OF l] by simp
    then have "db (view s) \<noteq> None \<and> userId (view s) \<noteq> None \<and>
      (\<exists>u. u \<noteq> [] \<and> AuthState (Some u) \<in> set past) \<and> sensor_query q"
      using inv by (simp add: sub_inv_def)
    moreover have "userId st1 \<noteq> None" if "userId (view s) \<noteq> None"
      using u1 that by auto
    ultimately show ?thesis
      using auth_listener_frame(3) [OF l] by auto
  qed
  have p3: "length (filter is_OnSnapshot (calls s @ cs)) =
      length (filter is_Unsubscribe (calls s @ cs)) + (if cleanup s then 1 else 0)"
    using inv auth_listener_calls(1,2) [OF l] by (simp add: sub_inv_def)
  have "sub_inv ?s1 (past @ [ev])"
    unfolding sub_inv_def using p1 p2 p3 by simp
  then show ?thesis
    unfolding s' by (rule commit_sub_inv)
next
  case SignInResolved
  then have "s' = s\<lparr>pending := pending s - 1\<rparr>"
    using st by (auto split: if_splits)
  then show ?thesis
    using sub_inv_past [OF inv] by (simp add: sub_inv_pending)
next
  case (SignInRejected m)
  let ?s1 = "s\<lparr>view := sign_in_rejected (view s) m, pending := pending s - 1\<rparr>"
  have s': "s' = commit (db (view s)) (userId (view s)) ?s1"
    using st SignInRejected by (auto split: if_splits)
  have "sub_inv (s\<lparr>view := sign_in_rejected (view s) m\<rparr>) (past @ [ev])"
    using sub_inv_past [OF inv] by (rule sub_inv_view) (simp_all add: sign_in_rejected_def)
  then have "sub_inv ?s1 (past @ [ev])"
    by (simp add: sub_inv_def)
  then show ?thesis
    unfolding s' by (rule commit_sub_inv)
next
  case (Snapshot docs)
  let ?v = "case onSnapshot_next (timestamp_toDate k) (view s) docs of
              Inl err \<Rightarrow> view s | Inr st' \<Rightarrow> st'"
  have s': "s' = commit (db (view s)) (userId (view s)) (s\<lparr>view := ?v\<rparr>)"
    using st Snapshot by (auto split: if_splits)
  have "db ?v = db (view s)" "userId ?v = userId (view s)"
    by (auto split: sum.splits dest: onSnapshot_next_frame(1,3))
  then have "sub_inv (s\<lparr>view := ?v\<rparr>) (past @ [ev])"
    using sub_inv_past [OF inv] by (rule sub_inv_view [rotated 1])
  then show ?thesis
    unfolding s' by (rule commit_sub_inv)
next
  case (SnapshotError m)
  have s': "s' = commit (db (view s)) (userId (view s))
                   (s\<lparr>view := onSnapshot_error (view s) m\<rparr>)"
    using st SnapshotError by (auto split: if_splits)
  have "sub_inv (s\<lparr>view := onSnapshot_error (view s) m\<rparr>) (past @ [ev])"
    using sub_inv_past [OF inv] by (rule sub_inv_view) (simp_all add: onSnapshot_error_def)
  then show ?thesis
    unfolding s' by (rule commit_sub_inv)
qed

lemma run_sub_inv:
  "run k e s evs = Some s' \<Longrightarrow> sub_inv s past \<Longrightarrow> mounted s \<or> s = sys0 \<Longrightarrow>
   sub_inv s' (past @ evs)"
proof (induction evs arbitrary: s past)
  case Nil
  then show ?case by simp
next
  case (Cons ev evs)
  then obtain s1 where s1: "sys_step k e s ev = Some s1" and r: "run k e s1 evs = Some s'"
    by (auto split: option.splits)
  have i: "sub_inv s1 (past @ [ev])"
    using s1 Cons.prems(2,3) by (rule sys_step_sub_inv)
  have m: "mounted s1 \<or> s1 = sys0"
    using sys_step_mounted [OF s1 Cons.prems(3)] by simp
  show ?case
    using Cons.IH [OF r i m] by simp
qed

lemma reachable_sub_inv: "run k e sys0 evs = Some s \<Longrightarrow> sub_inv s evs"
  using run_sub_inv [of k e sys0 evs s "[]"] sub_inv_sys0 by simp

lemma init_effect_valid:
  assumes "firebase_config e = Some c" and "JSON_parse k c = Inr cfg"
    and "\<not> json_falsy cfg" and "keys_length cfg \<noteq> 0"
    and "initializeApp k cfg = Inr app" and "getFirestore k app = Inr h"
    and "getAuth k app = Inr a"
  shows "init_effect k e st =
     (st\<lparr>db := Some h, auth := Some a\<rparr>,
      [InitializeApp cfg, GetFirestore app, GetAuth app, OnAuthStateChanged a], True)"
  using assms by (simp add: init_effect_def)

lemma mount_valid:
  assumes "firebase_config e = Some c" and "JSON_parse k c = Inr cfg"
    and "\<not> json_falsy cfg" and "keys_length cfg \<noteq> 0"
    and "initializeApp k cfg = Inr app" and "getFirestore k app = Inr h"
    and "getAuth k app = Inr a"
  shows "sys_step k e sys0 Mount =
     Some \<lparr>view = initial_state\<lparr>db := Some h, auth := Some a\<rparr>,
           mounted = True, listening = Some a, pending = 0, cleanup = False,
           calls = [InitializeApp cfg, GetFirestore app, GetAuth app, OnAuthStateChanged a]\<rparr>"
proof -
  have v: "view sys0 = initial_state" "mounted sys0 = False" "calls sys0 = []"
    by (simp_all add: sys0_def)
  have d: "db initial_state = None" "userId initial_state = None"
    by (simp_all add: initial_state_def)
  show ?thesis
    by (simp add: v d init_effect_valid [OF assms] data_effect_def commit_def truthy_str_def
          Let_def)
       (simp add: sys0_def)
qed

lemma identity_valid:
  assumes "u \<noteq> []"
  shows "sys_step k e
     \<lparr>view = initial_state\<lparr>db := Some h, auth := Some a\<rparr>,
      mounted = True, listening = Some a, pending = 0, cleanup = False, calls = cs\<rparr>
     (AuthState (Some u)) =
     Some \<lparr>view = initial_state\<lparr>db := Some h, auth := Some a, userId := Some u,
                                  isLoading := False\<rparr>,
           mounted = True, listening = Some a, pending = 0, cleanup = True,
           calls = cs @ [OnSnapshot \<lparr>q_db = h, q_path = ''sensorReadings'',
                            q_constraints = [OrderBy ''timestamp'' Desc, Limit 10]\<rparr>]\<rparr>"
  using assms
  by (simp add: auth_listener_def commit_def data_effect_def truthy_str_def initial_state_def
        Let_def)

lemma sys_step_Snapshot:
  assumes "sys_step k e s (Snapshot docs) = Some s'"
  shows "cleanup s"
    and "s' = s\<lparr>view := (case onSnapshot_next (timestamp_toDate k) (view s) docs of
                            Inl err \<Rightarrow> view s | Inr st' \<Rightarrow> st')\<rparr>"
proof -
  show c: "cleanup s" using assms by (auto split: if_splits)
  let ?v = "case onSnapshot_next (timestamp_toDate k) (view s) docs of
              Inl err \<Rightarrow> view s | Inr st' \<Rightarrow> st'"
  have "db ?v = db (view s)" "userId ?v = userId (view s)"
    by (auto split: sum.splits dest: onSnapshot_next_frame(1,3))
  then have "commit (db (view s)) (userId (view s)) (s\<lparr>view := ?v\<rparr>) = s\<lparr>view := ?v\<rparr>"
    by (simp add: commit_same)
  then show "s' = s\<lparr>view := ?v\<rparr>" using assms c by simp
qed

lemma sys_step_Snapshot_twice:
  assumes "sys_step k e s (Snapshot docs) = Some s1"
  shows "sys_step k e s1 (Snapshot docs) = Some s1"
proof (cases "onSnapshot_next (timestamp_toDate k) (view s) docs")
  case (Inl err)
  then have s1: "s1 = s"
    using sys_step_Snapshot(2) [OF assms] by simp
  show ?thesis using assms unfolding s1 .
next
  case (Inr st')
  then have s1: "s1 = s\<lparr>view := st'\<rparr>"
    using sys_step_Snapshot(2) [OF assms] by simp
  have c: "cleanup s1" using sys_step_Snapshot(1) [OF assms] s1 by simp
  have again: "onSnapshot_next (timestamp_toDate k) (view s1) docs = Inr st'"
    using snapshot_twice [OF Inr] s1 by simp
  have "commit (db (view s1)) (userId (view s1)) (s1\<lparr>view := st'\<rparr>) = s1\<lparr>view := st'\<rparr>"
    using s1 by (simp add: commit_same)
  then show ?thesis
    using c again s1 by simp
qed

section \<open>The concrete session, step by step\<close>

lemma example_init:
  "init_effect example_sdk example_env initial_state =
     (initial_state\<lparr>db := Some 2, auth := Some 3\<rparr>,
      [InitializeApp (JsonObj [(''projectId'', JsonStr ''aura'')]),
       GetFirestore 1, GetAuth 1, OnAuthStateChanged 3], True)"
  by (simp add: init_effect_def example_sdk_def example_env_def)

lemma example_mount: "sys_step example_sdk example_env sys0 Mount = Some example_mounted"
proof -
  have v: "view sys0 = initial_state" "mounted sys0 = False" "calls sys0 = []"
    by (simp_all add: sys0_def)
  have d: "db initial_state = None" "userId initial_state = None"
    by (simp_all add: initial_state_def)
  show ?thesis
    by (simp add: v d example_init data_effect_def commit_def truthy_str_def Let_def)
       (simp add: sys0_def example_mounted_def)
qed

lemma example_auth:
  "sys_step example_sdk example_env example_mounted (AuthState (Some ''u1'')) =
     Some example_subscribed"
  by (simp add: example_mounted_def auth_listener_def commit_def data_effect_def truthy_str_def
        initial_state_def example_subscribed_def example_calls_def example_query_def Let_def)

lemma example_load:
  "sys_step example_sdk example_env example_subscribed
     (Snapshot [example_doc1, example_doc2]) = Some example_loaded"
  by (simp add: example_subscribed_def example_loaded_def example_snapshot commit_def
        example_sdk_def initial_state_def)

lemma example_run_subscribed:
  "run example_sdk example_env sys0 [Mount, AuthState (Some ''u1'')] = Some example_subscribed"
  by (simp only: run.simps example_mount example_auth option.case)

lemma example_run_loaded:
  "run example_sdk example_env sys0
     [Mount, AuthState (Some ''u1''), Snapshot [example_doc1, example_doc2]] =
   Some example_loaded"
  by (simp only: run.simps example_mount example_auth example_load option.case)

lemma example_degrade:
  "sys_step example_sdk example_env example_loaded (SnapshotError ''unavailable'') =
     Some example_degraded"
  by (simp add: example_loaded_def example_subscribed_def example_degraded_def commit_def
        onSnapshot_error_def initial_state_def)


lemma example_run_degraded:
  "run example_sdk example_env sys0 (example_events @ [SnapshotError ''unavailable'']) =
     Some example_degraded"
  unfolding example_events_def
  by (simp only: append.simps run.simps example_mount example_auth example_load example_degrade
        option.case)

lemma example_resubscribe:
  "sys_step example_sdk example_env example_degraded (AuthState (Some ''u2'')) =
     Some example_resubscribed"
  by (simp add: example_degraded_def example_loaded_def example_subscribed_def
        example_resubscribed_def auth_listener_def commit_def data_effect_def truthy_str_def
        initial_state_def example_calls_def example_query_def Let_def)







section \<open>The claims\<close>



text \<open>
  C2. An empty snapshot processed in a state whose \<open>latestReading\<close> is set leaves
  \<open>latestReading\<close> as it was, replaces \<open>sensorReadings\<close> by the empty list and
  clears \<open>isLoading\<close>; nothing else changes.
\<close>

theorem empty_snapshot_keeps_latest:
  assumes "latestReading st = Some r"
  shows "onSnapshot_next toDate st [] = Inr (st\<lparr>sensorReadings := [], isLoading := False\<rparr>) \<and>
         latestReading (st\<lparr>sensorReadings := [], isLoading := False\<rparr>) = Some r"
  using assms by (simp add: onSnapshot_next_def)

theorem empty_snapshot_keeps_latest_witness:
  "latestReading (view example_loaded) = Some example_reading1 \<and>
   onSnapshot_next example_toDate (view example_loaded) [] =
     Inr (initial_state\<lparr>db := Some 2, auth := Some 3, userId := Some ''u1'',
            latestReading := Some example_reading1, sensorReadings := [],
            isLoading := False\<rparr>)"
proof -
  have l: "latestReading (view example_loaded) = Some example_reading1"
    by (simp add: example_loaded_def)
  show ?thesis
    using empty_snapshot_keeps_latest [OF l, of example_toDate]
    by (simp add: example_loaded_def example_subscribed_def initial_state_def)
qed

text \<open>
  C3. Whenever \<open>sensorReadings\<close> is not empty, \<open>latestReading\<close> is its first element:
  this holds in the initial state, every event of the mounted component preserves it
  (so it holds in every reachable state), and the snapshot callback establishes it from
  any state. The new window is computed from the snapshot alone, and the error callback
  leaves window and latest reading as they were.
\<close>

theorem latest_is_head_of_window:
  "window_inv (view sys0) \<and>
   (\<forall>s ev s'. window_inv (view s) \<longrightarrow> sys_step k e s ev = Some s' \<longrightarrow> window_inv (view s')) \<and>
   (\<forall>evs s. run k e sys0 evs = Some s \<longrightarrow> window_inv (view s)) \<and>
   (\<forall>st snapshot st'. onSnapshot_next toDate st snapshot = Inr st' \<longrightarrow>
      window_inv st' \<and> forEach_push toDate snapshot [] = Inr (sensorReadings st')) \<and>
   (\<forall>st m. sensorReadings (onSnapshot_error st m) = sensorReadings st \<and>
      latestReading (onSnapshot_error st m) = latestReading st)"
proof (intro conjI allI impI)
  show "window_inv (view sys0)" by (rule window_inv_sys0)
next
  fix s ev s'
  assume "window_inv (view s)" and "sys_step k e s ev = Some s'"
  then show "window_inv (view s')" by (rule sys_step_window_inv [rotated])
next
  fix evs s
  assume "run k e sys0 evs = Some s"
  then show "window_inv (view s)" using window_inv_sys0 by (rule run_window_inv)
next
  fix st snapshot st'
  assume a: "onSnapshot_next toDate st snapshot = Inr st'"
  show "window_inv st'" using a by (rule onSnapshot_next_window_inv)
  show "forEach_push toDate snapshot [] = Inr (sensorReadings st')"
    using a by (rule onSnapshot_next_frame(6))
next
  fix st m
  show "sensorReadings (onSnapshot_error st m) = sensorReadings st"
    by (simp add: onSnapshot_error_def)
  show "latestReading (onSnapshot_error st m) = latestReading st"
    by (simp add: onSnapshot_error_def)
qed

theorem latest_is_head_of_window_witness:
  "run example_sdk example_env sys0 example_events = Some example_loaded \<and>
   sensorReadings (view example_loaded) = [example_reading1, example_reading2] \<and>
   latestReading (view example_loaded) = Some example_reading1 \<and>
   window_inv (view example_loaded)"
proof -
  have r: "run example_sdk example_env sys0 example_events = Some example_loaded"
    unfolding example_events_def by (rule example_run_loaded)
  have "window_inv (view example_loaded)"
    using latest_is_head_of_window [of example_sdk example_env example_toDate] r by blast
  then show ?thesis
    using r by (simp add: example_loaded_def)
qed

text \<open>
  C4. With a configuration the SDK accepts, mounting alone opens no subscription; when
  the auth listener then reports a user with a non-empty uid, exactly one subscription
  is opened, on the collection \<open>sensorReadings\<close> with \<open>orderBy('timestamp', 'desc')\<close> and
  \<open>limit(10)\<close>. In every reachable state a subscription in the call log implies that
  \<open>db\<close> and \<open>userId\<close> are set and that the auth listener has reported a user before;
  and at most one subscription is open at a time.
\<close>

theorem subscription_after_identity:
  assumes "firebase_config e = Some c" and "JSON_parse k c = Inr cfg"
    and "\<not> json_falsy cfg" and "keys_length cfg \<noteq> 0"
    and "initializeApp k cfg = Inr app" and "getFirestore k app = Inr h"
    and "getAuth k app = Inr a" and "u \<noteq> []"
  shows "(\<exists>s1 s2. run k e sys0 [Mount] = Some s1 \<and>
            filter is_OnSnapshot (calls s1) = [] \<and> cleanup s1 = False \<and>
            db (view s1) = Some h \<and> userId (view s1) = None \<and>
            run k e sys0 [Mount, AuthState (Some u)] = Some s2 \<and>
            db (view s2) = Some h \<and> userId (view s2) = Some u \<and> cleanup s2 \<and>
            filter is_OnSnapshot (calls s2) =
              [OnSnapshot \<lparr>q_db = h, q_path = ''sensorReadings'',
                 q_constraints = [OrderBy ''timestamp'' Desc, Limit 10]\<rparr>] \<and>
            filter is_Unsubscribe (calls s2) = []) \<and>
         (\<forall>evs s q. run k e sys0 evs = Some s \<longrightarrow> OnSnapshot q \<in> set (calls s) \<longrightarrow>
            db (view s) \<noteq> None \<and> userId (view s) \<noteq> None \<and>
            (\<exists>u'. u' \<noteq> [] \<and> AuthState (Some u') \<in> set evs) \<and>
            q_path q = ''sensorReadings'' \<and>
            q_constraints q = [OrderBy ''timestamp'' Desc, Limit 10]) \<and>
         (\<forall>evs s. run k e sys0 evs = Some s \<longrightarrow>
            length (filter is_OnSnapshot (calls s)) =
              length (filter is_Unsubscribe (calls s)) + (if cleanup s then 1 else 0))"
proof (intro conjI)
  let ?cs = "[InitializeApp cfg, GetFirestore app, GetAuth app, OnAuthStateChanged a]"
  let ?q = "\<lparr>q_db = h, q_path = ''sensorReadings'',
             q_constraints = [OrderBy ''timestamp'' Desc, Limit 10]\<rparr>"
  let ?s1 = "\<lparr>view = initial_state\<lparr>db := Some h, auth := Some a\<rparr>,
              mounted = True, listening = Some a, pending = 0, cleanup = False,
              calls = ?cs\<rparr>"
  let ?s2 = "\<lparr>view = initial_state\<lparr>db := Some h, auth := Some a, userId := Some u,
                                     isLoading := False\<rparr>,
              mounted = True, listening = Some a, pending = 0, cleanup = True,
              calls = ?cs @ [OnSnapshot ?q]\<rparr>"
  have m: "sys_step k e sys0 Mount = Some ?s1"
    using assms(1-7) by (rule mount_valid)
  have i: "sys_step k e ?s1 (AuthState (Some u)) = Some ?s2"
    using assms(8) by (rule identity_valid)
  have r1: "run k e sys0 [Mount] = Some ?s1"
    by (simp only: run.simps m option.case)
  have r2: "run k e sys0 [Mount, AuthState (Some u)] = Some ?s2"
    by (simp only: run.simps m i option.case)
  have "filter is_OnSnapshot (calls ?s1) = [] \<and> cleanup ?s1 = False \<and>
        db (view ?s1) = Some h \<and> userId (view ?s1) = None"
    by (simp add: initial_state_def)
  moreover have "db (view ?s2) = Some h \<and> userId (view ?s2) = Some u \<and> cleanup ?s2 \<and>
        filter is_OnSnapshot (calls ?s2) = [OnSnapshot ?q] \<and>
        filter is_Unsubscribe (calls ?s2) = []"
    by simp
  ultimately show "\<exists>s1 s2. run k e sys0 [Mount] = Some s1 \<and>
            filter is_OnSnapshot (calls s1) = [] \<and> cleanup s1 = False \<and>
            db (view s1) = Some h \<and> userId (view s1) = None \<and>
            run k e sys0 [Mount, AuthState (Some u)] = Some s2 \<and>
            db (view s2) = Some h \<and> userId (view s2) = Some u \<and> cleanup s2 \<and>
            filter is_OnSnapshot (calls s2) = [OnSnapshot ?q] \<and>
            filter is_Unsubscribe (calls s2) = []"
    using r1 r2 by blast
next
  show "\<forall>evs s q. run k e sys0 evs = Some s \<longrightarrow> OnSnapshot q \<in> set (calls s) \<longrightarrow>
            db (view s) \<noteq> None \<and> userId (view s) \<noteq> None \<and>
            (\<exists>u'. u' \<noteq> [] \<and> AuthState (Some u') \<in> set evs) \<and>
            q_path q = ''sensorReadings'' \<and>
            q_constraints q = [OrderBy ''timestamp'' Desc, Limit 10]"
  proof (intro allI impI)
    fix evs s q
    assume "run k e sys0 evs = Some s" and q: "OnSnapshot q \<in> set (calls s)"
    then have "sub_inv s evs" by (simp add: reachable_sub_inv)
    then show "db (view s) \<noteq> None \<and> userId (view s) \<noteq> None \<and>
            (\<exists>u'. u' \<noteq> [] \<and> AuthState (Some u') \<in> set evs) \<and>
            q_path q = ''sensorReadings'' \<and>
            q_constraints q = [OrderBy ''timestamp'' Desc, Limit 10]"
      using q unfolding sub_inv_def sensor_query_def by blast
  qed
next
  show "\<forall>evs s. run k e sys0 evs = Some s \<longrightarrow>
            length (filter is_OnSnapshot (calls s)) =
              length (filter is_Unsubscribe (calls s)) + (if cleanup s then 1 else 0)"
  proof (intro allI impI)
    fix evs s
    assume "run k e sys0 evs = Some s"
    then have "sub_inv s evs" by (rule reachable_sub_inv)
    then show "length (filter is_OnSnapshot (calls s)) =
              length (filter is_Unsubscribe (calls s)) + (if cleanup s then 1 else 0)"
      unfolding sub_inv_def by blast
  qed
qed

theorem subscription_after_identity_witness:
  "firebase_config example_env = Some ''cfg'' \<and>
   JSON_parse example_sdk ''cfg'' = Inr (JsonObj [(''projectId'', JsonStr ''aura'')]) \<and>
   keys_length (JsonObj [(''projectId'', JsonStr ''aura'')]) = 1 \<and>
   initializeApp example_sdk (JsonObj [(''projectId'', JsonStr ''aura'')]) = Inr 1 \<and>
   getFirestore example_sdk 1 = Inr 2 \<and> getAuth example_sdk 1 = Inr 3 \<and>
   run example_sdk example_env sys0 [Mount] = Some example_mounted \<and>
   filter is_OnSnapshot (calls example_mounted) = [] \<and>
   run example_sdk example_env sys0 [Mount, AuthState (Some ''u1'')] = Some example_subscribed \<and>
   filter is_OnSnapshot (calls example_subscribed) = [OnSnapshot example_query] \<and>
   example_query =
     \<lparr>q_db = 2, q_path = ''sensorReadings'',
      q_constraints = [OrderBy ''timestamp'' Desc, Limit 10]\<rparr>"
proof -
  have a: "firebase_config example_env = Some ''cfg''"
    "JSON_parse example_sdk ''cfg'' = Inr (JsonObj [(''projectId'', JsonStr ''aura'')])"
    "\<not> json_falsy (JsonObj [(''projectId'', JsonStr ''aura'')])"
    "keys_length (JsonObj [(''projectId'', JsonStr ''aura'')]) \<noteq> 0"
    "initializeApp example_sdk (JsonObj [(''projectId'', JsonStr ''aura'')]) = Inr 1"
    "getFirestore example_sdk 1 = Inr 2" "getAuth example_sdk 1 = Inr 3"
    "''u1'' \<noteq> []"
    by (simp_all add: example_env_def example_sdk_def)
  have k1: "keys_length (JsonObj [(''projectId'', JsonStr ''aura'')]) = 1"
    by simp
  obtain s2 where s2: "run example_sdk example_env sys0 [Mount, AuthState (Some ''u1'')] = Some s2"
    and f: "filter is_OnSnapshot (calls s2) =
        [OnSnapshot \<lparr>q_db = 2, q_path = ''sensorReadings'',
           q_constraints = [OrderBy ''timestamp'' Desc, Limit 10]\<rparr>]"
    using subscription_after_identity [OF a] by blast
  have "s2 = example_subscribed"
    using s2 unfolding example_run_subscribed by simp
  then have f': "filter is_OnSnapshot (calls example_subscribed) = [OnSnapshot example_query]"
    using f by (simp add: example_query_def)
  have r1: "run example_sdk example_env sys0 [Mount] = Some example_mounted"
    by (simp only: run.simps example_mount option.case)
  have m: "filter is_OnSnapshot (calls example_mounted) = []"
    by (simp add: example_mounted_def)
  show ?thesis
    using a(1,2,5,6,7) k1 r1 m example_run_subscribed f' example_query_def by blast
qed



text \<open>
  C6. When \<open>__firebase_config\<close> is not defined, or parses to a value that is falsy or
  has no keys, mounting ends with \<open>isLoading\<close> false, \<open>error\<close> the configuration
  message and an empty window; no SDK call was made, no listener and no subscription
  is registered, so no further event can reach the component.
\<close>

theorem missing_configuration:
  assumes "firebase_config e = None \<or>
     (\<exists>c cfg. firebase_config e = Some c \<and> JSON_parse k c = Inr cfg \<and>
        (json_falsy cfg \<or> keys_length cfg = 0))"
  shows "\<exists>s1. sys_step k e sys0 Mount = Some s1 \<and>
           isLoading (view s1) = False \<and>
           error (view s1) =
             Some ''Firebase configuration not found. Please ensure __firebase_config is set.'' \<and>
           sensorReadings (view s1) = [] \<and> latestReading (view s1) = None \<and>
           db (view s1) = None \<and> auth (view s1) = None \<and> userId (view s1) = None \<and>
           listening s1 = None \<and> cleanup s1 = False \<and> calls s1 = [] \<and>
           render (view s1) =
             ErrorPanel
               (Some ''Firebase configuration not found. Please ensure __firebase_config is set.'')
               None \<and>
           (\<forall>ev. sys_step k e s1 ev = None) \<and>
           (\<forall>evs s. run k e sys0 evs = Some s \<longrightarrow> s = sys0 \<or> s = s1)"
proof -
  have m: "sys_step k e sys0 Mount = Some no_config_sys"
    using assms by (rule mount_no_config)
  have "isLoading (view no_config_sys) = False \<and>
        error (view no_config_sys) =
          Some ''Firebase configuration not found. Please ensure __firebase_config is set.'' \<and>
        sensorReadings (view no_config_sys) = [] \<and>
        latestReading (view no_config_sys) = None \<and>
        db (view no_config_sys) = None \<and> auth (view no_config_sys) = None \<and>
        userId (view no_config_sys) = None \<and>
        listening no_config_sys = None \<and> cleanup no_config_sys = False \<and>
        calls no_config_sys = [] \<and>
        render (view no_config_sys) =
          ErrorPanel
            (Some ''Firebase configuration not found. Please ensure __firebase_config is set.'')
            None"
    by (simp add: no_config_sys_def initial_state_def config_error_message_def render_def
          truthy_str_def)
  moreover have "\<forall>ev. sys_step k e no_config_sys ev = None"
    by (simp add: no_config_stuck del: sys_step.simps)
  moreover have "\<forall>evs s. run k e sys0 evs = Some s \<longrightarrow> s = sys0 \<or> s = no_config_sys"
    using run_no_config [OF m] by blast
  ultimately show ?thesis using m by blast
qed

theorem missing_configuration_witness:
  "firebase_config example_env_absent = None \<and>
   sys_step example_sdk example_env_absent sys0 Mount = Some no_config_sys \<and>
   firebase_config example_env_empty = Some ''{}'' \<and>
   JSON_parse example_sdk_empty ''{}'' = Inr (JsonObj []) \<and>
   keys_length (JsonObj []) = 0 \<and>
   sys_step example_sdk_empty example_env_empty sys0 Mount = Some no_config_sys \<and>
   view no_config_sys =
     \<lparr>db = None, auth = None, userId = None, latestReading = None, sensorReadings = [],
      error = Some ''Firebase configuration not found. Please ensure __firebase_config is set.'',
      isLoading = False\<rparr> \<and>
   calls no_config_sys = [] \<and>
   run example_sdk example_env_absent no_config_sys [AuthState (Some ''u1'')] = None"
proof -
  have a: "firebase_config example_env_absent = None \<or>
     (\<exists>c cfg. firebase_config example_env_absent = Some c \<and>
        JSON_parse example_sdk c = Inr cfg \<and> (json_falsy cfg \<or> keys_length cfg = 0))"
    by (simp add: example_env_absent_def)
  have p: "firebase_config example_env_empty = Some ''{}''"
    "JSON_parse example_sdk_empty ''{}'' = Inr (JsonObj [])"
    "keys_length (JsonObj []) = 0"
    by (simp_all add: example_env_empty_def example_sdk_empty_def)
  then have b: "firebase_config example_env_empty = None \<or>
     (\<exists>c cfg. firebase_config example_env_empty = Some c \<and>
        JSON_parse example_sdk_empty c = Inr cfg \<and> (json_falsy cfg \<or> keys_length cfg = 0))"
    by blast
  have n: "firebase_config example_env_absent = None"
    by (simp add: example_env_absent_def)
  obtain s1 where s1: "sys_step example_sdk example_env_absent sys0 Mount = Some s1"
    and stuck: "\<forall>ev. sys_step example_sdk example_env_absent s1 ev = None"
    using missing_configuration [OF a] by blast
  obtain s2 where s2: "sys_step example_sdk_empty example_env_empty sys0 Mount = Some s2"
    using missing_configuration [OF b] by blast
  have s1': "s1 = no_config_sys"
    using s1 mount_no_config [OF a] by simp
  have s2': "s2 = no_config_sys"
    using s2 mount_no_config [OF b] by simp
  have r: "run example_sdk example_env_absent no_config_sys [AuthState (Some ''u1'')] = None"
    using stuck s1' by (simp del: sys_step.simps)
  have v: "view no_config_sys =
     \<lparr>db = None, auth = None, userId = None, latestReading = None, sensorReadings = [],
      error = Some ''Firebase configuration not found. Please ensure __firebase_config is set.'',
      isLoading = False\<rparr>" "calls no_config_sys = []"
    by (simp_all add: no_config_sys_def initial_state_def config_error_message_def)
  show ?thesis
    using n p r v s1 s2 s1' s2' by blast
qed

text \<open>
  C7, as the claim states it, fails: after a snapshot was shown and the subscription then
  reports an error, the component renders the error panel, not the dashboard.
\<close>

theorem dashboard_after_error_counterexample:
  "run example_sdk example_env sys0 (example_events @ [SnapshotError ''unavailable'']) =
     Some example_degraded \<and>
   sensorReadings (view example_degraded) = [example_reading1, example_reading2] \<and>
   latestReading (view example_degraded) = Some example_reading1 \<and>
   render (view example_degraded) =
     ErrorPanel (Some ''Failed to fetch sensor data: unavailable'') (Some ''u1'') \<and>
   render (view example_degraded) \<noteq>
     Dashboard (Some ''u1'') (Some example_reading1) [example_reading1, example_reading2]"
proof -
  have "render (view example_degraded) =
     ErrorPanel (Some ''Failed to fetch sensor data: unavailable'') (Some ''u1'')"
    by (simp add: render_def example_degraded_def example_loaded_def example_subscribed_def
          initial_state_def truthy_str_def)
  moreover have "sensorReadings (view example_degraded) = [example_reading1, example_reading2]"
    "latestReading (view example_degraded) = Some example_reading1"
    by (simp_all add: example_degraded_def example_loaded_def)
  ultimately show ?thesis
    using example_run_degraded by simp
qed

text \<open>
  C7, amended. The loading indicator is rendered exactly while \<open>isLoading\<close> holds;
  otherwise the error panel whenever \<open>error\<close> is a non-empty string, whether or not a
  snapshot was shown before; otherwise the dashboard with \<open>latestReading\<close> and
  \<open>sensorReadings\<close>. After a subscription error the error panel is rendered while
  the state still holds the last window.
\<close>

theorem render_modes:
  "(isLoading st \<longrightarrow> render st = LoadingIndicator) \<and>
   (render st = LoadingIndicator \<longrightarrow> isLoading st) \<and>
   ((\<exists>m u. render st = ErrorPanel m u) \<longleftrightarrow> \<not> isLoading st \<and> truthy_str (error st)) \<and>
   (render st = Dashboard u l w \<longleftrightarrow>
      \<not> isLoading st \<and> \<not> truthy_str (error st) \<and>
      u = userId st \<and> l = latestReading st \<and> w = sensorReadings st) \<and>
   (\<forall>s s' m. cleanup s \<longrightarrow> sys_step k e s (SnapshotError m) = Some s' \<longrightarrow>
      render (view s') =
        ErrorPanel (Some (''Failed to fetch sensor data: '' @ m)) (userId (view s)) \<and>
      sensorReadings (view s') = sensorReadings (view s) \<and>
      latestReading (view s') = latestReading (view s))"
proof (intro conjI allI impI)
  show "render st = LoadingIndicator" if "isLoading st"
    using that by (simp add: render_def)
  show "isLoading st" if "render st = LoadingIndicator"
    using that by (simp add: render_def split: if_splits)
  show "(\<exists>m u. render st = ErrorPanel m u) \<longleftrightarrow> \<not> isLoading st \<and> truthy_str (error st)"
    by (simp add: render_def)
  show "render st = Dashboard u l w \<longleftrightarrow>
      \<not> isLoading st \<and> \<not> truthy_str (error st) \<and>
      u = userId st \<and> l = latestReading st \<and> w = sensorReadings st"
    by (auto simp: render_def)
next
  fix s s' m
  assume c: "cleanup s" and st: "sys_step k e s (SnapshotError m) = Some s'"
  have s': "s' = s\<lparr>view := onSnapshot_error (view s) m\<rparr>"
    using sys_step_SnapshotError [OF c, of k e m] st by simp
  show "render (view s') =
        ErrorPanel (Some (''Failed to fetch sensor data: '' @ m)) (userId (view s))"
    by (simp add: s' render_def onSnapshot_error_def truthy_str_def)
  show "sensorReadings (view s') = sensorReadings (view s)"
    by (simp add: s' onSnapshot_error_def)
  show "latestReading (view s') = latestReading (view s)"
    by (simp add: s' onSnapshot_error_def)
qed

theorem render_modes_witness:
  "cleanup example_loaded \<and>
   sys_step example_sdk example_env example_loaded (SnapshotError ''unavailable'') =
     Some example_degraded \<and>
   render (view example_loaded) =
     Dashboard (Some ''u1'') (Some example_reading1) [example_reading1, example_reading2] \<and>
   render (view example_degraded) =
     ErrorPanel (Some ''Failed to fetch sensor data: unavailable'') (Some ''u1'') \<and>
   render initial_state = LoadingIndicator"
proof -
  have c: "cleanup example_loaded"
    by (simp add: example_loaded_def example_subscribed_def)
  have u: "userId (view example_loaded) = Some ''u1''"
    by (simp add: example_loaded_def example_subscribed_def)
  have l: "isLoading initial_state" by (simp add: initial_state_def)
  have v: "\<not> isLoading (view example_loaded) \<and> \<not> truthy_str (error (view example_loaded)) \<and>
      Some ''u1'' = userId (view example_loaded) \<and>
      Some example_reading1 = latestReading (view example_loaded) \<and>
      [example_reading1, example_reading2] = sensorReadings (view example_loaded)"
    by (simp add: example_loaded_def example_subscribed_def initial_state_def truthy_str_def)
  have "render (view example_degraded) =
      ErrorPanel (Some (''Failed to fetch sensor data: '' @ ''unavailable''))
        (userId (view example_loaded))"
    using render_modes [of _ _ _ _ example_sdk example_env] c example_degrade by blast
  moreover have "render initial_state = LoadingIndicator"
    using render_modes [of initial_state] l by blast
  moreover have "render (view example_loaded) =
     Dashboard (Some ''u1'') (Some example_reading1) [example_reading1, example_reading2]"
    using render_modes [of "view example_loaded" "Some ''u1''" "Some example_reading1"
        "[example_reading1, example_reading2]"] v by blast
  ultimately show ?thesis
    using c u example_degrade by simp
qed




text \<open>
  C9. A snapshot processed a second time, right after it was processed, gives the
  component state it gave the first time: for the callback when it returns, for the
  callback when it throws (it throws again, whatever the state), and for the snapshot
  event of the mounted component.
\<close>

theorem snapshot_idempotent:
  "(onSnapshot_next toDate st snapshot = Inr st1 \<longrightarrow>
      onSnapshot_next toDate st1 snapshot = Inr st1) \<and>
   (onSnapshot_next toDate st snapshot = Inl err \<longrightarrow>
      onSnapshot_next toDate st2 snapshot = Inl err) \<and>
   (sys_step k e s (Snapshot snapshot) = Some s1 \<longrightarrow>
      sys_step k e s1 (Snapshot snapshot) = Some s1)"
  using snapshot_twice onSnapshot_next_Inl sys_step_Snapshot_twice by blast

theorem snapshot_idempotent_witness:
  "onSnapshot_next example_toDate (view example_subscribed) [example_doc1, example_doc2] =
     Inr (view example_loaded) \<and>
   onSnapshot_next example_toDate (view example_loaded) [example_doc1, example_doc2] =
     Inr (view example_loaded) \<and>
   sys_step example_sdk example_env example_subscribed
     (Snapshot [example_doc1, example_doc2]) = Some example_loaded \<and>
   sys_step example_sdk example_env example_loaded
     (Snapshot [example_doc1, example_doc2]) = Some example_loaded"
proof -
  have a: "onSnapshot_next example_toDate (view example_subscribed)
      [example_doc1, example_doc2] = Inr (view example_loaded)"
    by (simp add: example_snapshot example_loaded_def example_subscribed_def)
  have b: "onSnapshot_next example_toDate (view example_loaded)
      [example_doc1, example_doc2] = Inr (view example_loaded)"
    using snapshot_idempotent [of example_toDate "view example_subscribed"
        "[example_doc1, example_doc2]" "view example_loaded"] a
    by blast
  have c: "sys_step example_sdk example_env example_loaded
     (Snapshot [example_doc1, example_doc2]) = Some example_loaded"
    using snapshot_idempotent [of _ _ "[example_doc1, example_doc2]" _ _ _
        example_sdk example_env example_subscribed example_loaded] example_load
    by blast
  show ?thesis
    using a b c example_load by blast
qed

text \<open>
  C10. The snapshot callback changes \<open>sensorReadings\<close>, \<open>latestReading\<close> and
  \<open>isLoading\<close> only, so a snapshot never clears \<open>error\<close>. In a reachable state an
  event takes \<open>error\<close> from set to \<open>null\<close> only by changing \<open>db\<close> or \<open>userId\<close>,
  which runs the data effect again: it then opens a subscription.
\<close>

theorem snapshot_keeps_error:
  "(\<forall>st snapshot st'. onSnapshot_next toDate st snapshot = Inr st' \<longrightarrow>
      error st' = error st \<and>
      st' = st\<lparr>sensorReadings := sensorReadings st', latestReading := latestReading st',
               isLoading := False\<rparr>) \<and>
   (\<forall>s docs s'. sys_step k e s (Snapshot docs) = Some s' \<longrightarrow> error (view s') = error (view s)) \<and>
   (\<forall>evs s ev s' m.
      run k e sys0 evs = Some s \<longrightarrow> sys_step k e s ev = Some s' \<longrightarrow>
      error (view s) = Some m \<longrightarrow> error (view s') = None \<longrightarrow>
      (db (view s') \<noteq> db (view s) \<or> userId (view s') \<noteq> userId (view s)) \<and>
      (\<exists>h. db (view s') = Some h \<and> truthy_str (userId (view s')) \<and> cleanup s' \<and>
         calls s' = calls s @ (if cleanup s then [Unsubscribe] else []) @
           [OnSnapshot \<lparr>q_db = h, q_path = ''sensorReadings'',
              q_constraints = [OrderBy ''timestamp'' Desc, Limit 10]\<rparr>]))"
proof (intro conjI allI impI)
  fix st snapshot st'
  assume a: "onSnapshot_next toDate st snapshot = Inr st'"
  show "error st' = error st" using a by (rule onSnapshot_next_frame(4))
  show "st' = st\<lparr>sensorReadings := sensorReadings st', latestReading := latestReading st',
                  isLoading := False\<rparr>"
    using a by (auto simp: onSnapshot_next_Inr split: if_splits)
next
  fix s docs s'
  assume "sys_step k e s (Snapshot docs) = Some s'"
  then show "error (view s') = error (view s)" by (rule sys_step_Snapshot_error)
next
  fix evs s ev s' m
  assume a: "run k e sys0 evs = Some s" "sys_step k e s ev = Some s'"
    "error (view s) = Some m" "error (view s') = None"
  show "db (view s') \<noteq> db (view s) \<or> userId (view s') \<noteq> userId (view s)"
    using error_cleared_only_by_data_effect [OF a] by blast
  show "\<exists>h. db (view s') = Some h \<and> truthy_str (userId (view s')) \<and> cleanup s' \<and>
         calls s' = calls s @ (if cleanup s then [Unsubscribe] else []) @
           [OnSnapshot \<lparr>q_db = h, q_path = ''sensorReadings'',
              q_constraints = [OrderBy ''timestamp'' Desc, Limit 10]\<rparr>]"
    using error_cleared_only_by_data_effect [OF a] by blast
qed

theorem snapshot_keeps_error_witness:
  "run example_sdk example_env sys0 (example_events @ [SnapshotError ''unavailable'']) =
     Some example_degraded \<and>
   sys_step example_sdk example_env example_degraded (AuthState (Some ''u2'')) =
     Some example_resubscribed \<and>
   error (view example_degraded) = Some ''Failed to fetch sensor data: unavailable'' \<and>
   error (view example_resubscribed) = None \<and>
   userId (view example_degraded) = Some ''u1'' \<and>
   userId (view example_resubscribed) = Some ''u2'' \<and>
   calls example_resubscribed = calls example_degraded @ [Unsubscribe, OnSnapshot example_query]"
proof -
  have e1: "error (view example_degraded) = Some ''Failed to fetch sensor data: unavailable''"
    and e2: "error (view example_resubscribed) = None"
    by (simp_all add: example_degraded_def example_resubscribed_def)
  have u: "userId (view example_degraded) = Some ''u1''"
    "userId (view example_resubscribed) = Some ''u2''"
    "db (view example_resubscribed) = db (view example_degraded)"
    "calls example_resubscribed = calls example_degraded @ [Unsubscribe, OnSnapshot example_query]"
    by (simp_all add: example_degraded_def example_resubscribed_def example_loaded_def
          example_subscribed_def)
  have "db (view example_resubscribed) \<noteq> db (view example_degraded) \<or>
        userId (view example_resubscribed) \<noteq> userId (view example_degraded)"
    using snapshot_keeps_error [of example_toDate example_sdk example_env]
      example_run_degraded example_resubscribe e1 e2
    by blast
  then show ?thesis
    using example_run_degraded example_resubscribe e1 e2 u by blast
qed

end
